theory Spec2Isabelle
  imports Main "HOL-Library.Word"
begin

section \<open>The data model of spreadsheet/sheet.go\<close>

text \<open>
  The Go code works on objects reached through pointers: a \<open>Sheet\<close> value holds three
  pointers (\<open>w *Workbook\<close>, \<open>x *sml.CT_Sheet\<close>, \<open>ws *sml.Worksheet\<close>), the row sequence
  \<open>ws.SheetData.Row\<close> is a slice of \<open>*sml.CT_Row\<close>, and \<open>SetDrawing\<close> finds the sheet and
  the drawing by comparing pointers. Pointers are addresses into an explicit store; an
  address the store does not hold stands for \<open>nil\<close>, and dereferencing it is the
  run-time panic of Go.
\<close>

type_synonym ptr = nat
type_synonym uint32 = "32 word"

datatype panic = NilDereference | IndexOutOfRange

text \<open>
  Of the generated schema types only the fields that sheet.go reads or writes are kept.
  An attribute of pointer type (\<open>RAttr *uint32\<close>, \<open>RAttr *string\<close>) is an option. The cells
  of a row are only read here and are held in the row by value. \<open>SheetData\<close> is taken to
  be allocated with its worksheet, so that \<open>s.ws.SheetData.Row\<close> is the field
  \<open>SheetData_Row\<close> of the worksheet, and the \<open>CT_Drawing\<close> that \<open>s.ws.Drawing\<close> points to is
  held in the worksheet (\<open>None\<close> is \<open>nil\<close>).
\<close>

record CT_Cell =
  cell_RAttr :: "string option"

record CT_Row =
  row_RAttr :: "uint32 option"
  row_C :: "CT_Cell list"

record CT_Drawing =
  IdAttr :: string

record Worksheet =
  SheetData_Row :: "ptr list"
  ws_Drawing :: "CT_Drawing option"

record CT_Sheet =
  NameAttr :: string

text \<open>
  \<open>gooxml.DocTypeSpreadsheet\<close> and \<open>gooxml.DrawingType\<close> are constants of another package;
  only that they differ from the other values of their types matters here.
\<close>

datatype DocType = DocTypeSpreadsheet | DocTypeOther nat

datatype RelType = DrawingType | RelTypeOther string

record Relationship =
  rel_ID :: string
  rel_DocType :: DocType
  rel_Index :: nat
  rel_Type :: RelType

text \<open>
  \<open>common.Relationships\<close> is a struct passed by value (\<open>rel = s.w.xwsRels[i]\<close> copies it)
  through which the workbook's relationship set is nevertheless mutated: it is a handle
  on the set. Its zero value (\<open>var rel common.Relationships\<close>) refers to no set.
\<close>

datatype Relationships = Relationships (rels_x: "ptr option")

record Workbook =
  xws :: "ptr list"
  xwsRels :: "Relationships list"
  drawings :: "ptr list"

record Sheet =
  sheet_w :: ptr
  sheet_x :: ptr
  sheet_ws :: ptr

record Row =
  row_w :: ptr
  row_x :: ptr

record Drawing =
  drawing_wb :: ptr
  drawing_x :: ptr

record heap =
  rows :: "ptr \<rightharpoonup> CT_Row"
  next_row :: ptr
  worksheets :: "ptr \<rightharpoonup> Worksheet"
  sheets :: "ptr \<rightharpoonup> CT_Sheet"
  workbooks :: "ptr \<rightharpoonup> Workbook"
  relationships :: "ptr \<rightharpoonup> Relationship list"

section \<open>Row addressing\<close>

text \<open>
  \<open>sml.NewCT_Row()\<close> allocates a row with every field zero. The allocator hands out the
  address \<open>next_row\<close>, which no live row has.
\<close>

definition NewCT_Row :: "heap \<Rightarrow> ptr \<times> heap" where
  "NewCT_Row h =
     (next_row h,
      h\<lparr>rows := (rows h)(next_row h \<mapsto> \<lparr>row_RAttr = None, row_C = []\<rparr>),
        next_row := Suc (next_row h)\<rparr>)"

text \<open>
  \<open>AddNumberedRow\<close>: a new row, its number set, appended to \<open>s.ws.SheetData.Row\<close>.
\<close>

definition AddNumberedRow :: "heap \<Rightarrow> Sheet \<Rightarrow> uint32 \<Rightarrow> panic + (Row \<times> heap)" where
  "AddNumberedRow h s rowNum =
     (let (r, h1) = NewCT_Row h;
          h2 = h1\<lparr>rows := (rows h1)(r := map_option (\<lambda>row. row\<lparr>row_RAttr := Some rowNum\<rparr>) (rows h1 r))\<rparr>
      in case worksheets h2 (sheet_ws s) of
           None \<Rightarrow> Inl NilDereference
         | Some wks \<Rightarrow>
             Inr (\<lparr>row_w = sheet_w s, row_x = r\<rparr>,
                  h2\<lparr>worksheets := (worksheets h2)(sheet_ws s \<mapsto>
                        wks\<lparr>SheetData_Row := SheetData_Row wks @ [r]\<rparr>)\<rparr>))"

text \<open>
  The loop of \<open>EnsureRow\<close> over the row pointers: the first row whose number is present
  and equal to \<open>rowNum\<close>, if any.
\<close>

fun find_row :: "(ptr \<rightharpoonup> CT_Row) \<Rightarrow> ptr list \<Rightarrow> uint32 \<Rightarrow> panic + ptr option" where
  "find_row rs [] rowNum = Inr None"
| "find_row rs (r # rest) rowNum =
     (case rs r of
        None \<Rightarrow> Inl NilDereference
      | Some row \<Rightarrow>
          if row_RAttr row \<noteq> None \<and> the (row_RAttr row) = rowNum then Inr (Some r)
          else find_row rs rest rowNum)"

definition EnsureRow :: "heap \<Rightarrow> Sheet \<Rightarrow> uint32 \<Rightarrow> panic + (Row \<times> heap)" where
  "EnsureRow h s rowNum =
     (case worksheets h (sheet_ws s) of
        None \<Rightarrow> Inl NilDereference
      | Some wks \<Rightarrow>
          (case find_row (rows h) (SheetData_Row wks) rowNum of
             Inl p \<Rightarrow> Inl p
           | Inr (Some r) \<Rightarrow> Inr (\<lparr>row_w = sheet_w s, row_x = r\<rparr>, h)
           | Inr None \<Rightarrow> AddNumberedRow h s rowNum))"

text \<open>
  The loop of \<open>AddRow\<close>: \<open>maxRowID\<close> starts at 0 and is raised by every row whose number
  is present and greater. The new number \<open>maxRowID + 1\<close> is \<open>uint32\<close> arithmetic.
\<close>

fun max_row_id :: "(ptr \<rightharpoonup> CT_Row) \<Rightarrow> ptr list \<Rightarrow> uint32 \<Rightarrow> panic + uint32" where
  "max_row_id rs [] maxRowID = Inr maxRowID"
| "max_row_id rs (r # rest) maxRowID =
     (case rs r of
        None \<Rightarrow> Inl NilDereference
      | Some row \<Rightarrow>
          if row_RAttr row \<noteq> None \<and> the (row_RAttr row) > maxRowID
          then max_row_id rs rest (the (row_RAttr row))
          else max_row_id rs rest maxRowID)"

definition AddRow :: "heap \<Rightarrow> Sheet \<Rightarrow> panic + (Row \<times> heap)" where
  "AddRow h s =
     (case worksheets h (sheet_ws s) of
        None \<Rightarrow> Inl NilDereference
      | Some wks \<Rightarrow>
          (case max_row_id (rows h) (SheetData_Row wks) 0 of
             Inl p \<Rightarrow> Inl p
           | Inr maxRowID \<Rightarrow> AddNumberedRow h s (maxRowID + 1)))"

definition Name :: "heap \<Rightarrow> Sheet \<Rightarrow> panic + string" where
  "Name h s =
     (case sheets h (sheet_x s) of
        None \<Rightarrow> Inl NilDereference
      | Some m \<Rightarrow> Inr (NameAttr m))"

definition SetName :: "heap \<Rightarrow> Sheet \<Rightarrow> string \<Rightarrow> panic + heap" where
  "SetName h s name =
     (case sheets h (sheet_x s) of
        None \<Rightarrow> Inl NilDereference
      | Some m \<Rightarrow> Inr (h\<lparr>sheets := (sheets h)(sheet_x s \<mapsto> m\<lparr>NameAttr := name\<rparr>)\<rparr>))"

text \<open>
  The loop of \<open>Rows\<close>: one handle appended to \<open>ret\<close> per row pointer.
\<close>

fun rows_loop :: "Sheet \<Rightarrow> Row list \<Rightarrow> ptr list \<Rightarrow> Row list" where
  "rows_loop s ret [] = ret"
| "rows_loop s ret (r # rest) = rows_loop s (ret @ [\<lparr>row_w = sheet_w s, row_x = r\<rparr>]) rest"

definition Rows :: "heap \<Rightarrow> Sheet \<Rightarrow> panic + Row list" where
  "Rows h s =
     (case worksheets h (sheet_ws s) of
        None \<Rightarrow> Inl NilDereference
      | Some wks \<Rightarrow> Inr (rows_loop s [] (SheetData_Row wks)))"

section \<open>Validation\<close>

text \<open>
  \<open>Validate\<close> returns an \<open>error\<close> value (\<open>None\<close> is Go's \<open>nil\<close>). The two errors it builds
  itself are \<open>fmt.Errorf("'%s' reused row %d", s.Name(), *r.RAttr)\<close> and
  \<open>fmt.Errorf("'%s' reused cell %s", s.Name(), *c.RAttr)\<close>, kept here with their two
  arguments; an error of a delegated validator is passed on as it is.
\<close>

datatype 'e error = ReusedRow string uint32 | ReusedCell string string | Delegated 'e

fun validate_cells :: "heap \<Rightarrow> Sheet \<Rightarrow> string set \<Rightarrow> CT_Cell list \<Rightarrow> panic + 'e error option" where
  "validate_cells h s usedCells [] = Inr None"
| "validate_cells h s usedCells (c # cs) =
     (case cell_RAttr c of
        None \<Rightarrow> validate_cells h s usedCells cs
      | Some a \<Rightarrow>
          if a \<in> usedCells
          then (case Name h s of Inl p \<Rightarrow> Inl p | Inr nm \<Rightarrow> Inr (Some (ReusedCell nm a)))
          else validate_cells h s (insert a usedCells) cs)"

fun validate_rows :: "heap \<Rightarrow> Sheet \<Rightarrow> uint32 set \<Rightarrow> ptr list \<Rightarrow> panic + 'e error option" where
  "validate_rows h s usedRows [] = Inr None"
| "validate_rows h s usedRows (r # rest) =
     (case rows h r of
        None \<Rightarrow> Inl NilDereference
      | Some row \<Rightarrow>
          if row_RAttr row \<noteq> None \<and> the (row_RAttr row) \<in> usedRows
          then (case Name h s of
                  Inl p \<Rightarrow> Inl p
                | Inr nm \<Rightarrow> Inr (Some (ReusedRow nm (the (row_RAttr row)))))
          else
            (case validate_cells h s {} (row_C row) of
               Inl p \<Rightarrow> Inl p
             | Inr (Some e) \<Rightarrow> Inr (Some e)
             | Inr None \<Rightarrow>
                 validate_rows h s
                   (case row_RAttr row of None \<Rightarrow> usedRows | Some n \<Rightarrow> insert n usedRows)
                   rest))"

text \<open>
  The validators of the generated schema types, \<open>s.x.Validate()\<close>,
  \<open>s.x.ValidateWithPath(path)\<close> and \<open>s.ws.Validate()\<close>, are not part of sheet.go; they are
  parameters: \<open>x_Validate\<close>, \<open>x_ValidateWithPath\<close> and \<open>ws_Validate\<close>.
\<close>

definition Validate ::
  "(CT_Sheet \<Rightarrow> 'e option) \<Rightarrow> (heap \<Rightarrow> Worksheet \<Rightarrow> 'e option) \<Rightarrow> heap \<Rightarrow> Sheet
     \<Rightarrow> panic + 'e error option" where
  "Validate x_Validate ws_Validate h s =
     (case worksheets h (sheet_ws s) of
        None \<Rightarrow> Inl NilDereference
      | Some wks \<Rightarrow>
          (case validate_rows h s {} (SheetData_Row wks) of
             Inl p \<Rightarrow> Inl p
           | Inr (Some e) \<Rightarrow> Inr (Some e)
           | Inr None \<Rightarrow>
               (case sheets h (sheet_x s) of
                  None \<Rightarrow> Inl NilDereference
                | Some m \<Rightarrow>
                    (case x_Validate m of
                       Some err \<Rightarrow> Inr (Some (Delegated err))
                     | None \<Rightarrow> Inr (map_option Delegated (ws_Validate h wks))))))"

definition ValidateWithPath ::
  "(CT_Sheet \<Rightarrow> string \<Rightarrow> 'e option) \<Rightarrow> heap \<Rightarrow> Sheet \<Rightarrow> string \<Rightarrow> panic + 'e error option" where
  "ValidateWithPath x_ValidateWithPath h s path =
     (case sheets h (sheet_x s) of
        None \<Rightarrow> Inl NilDereference
      | Some m \<Rightarrow> Inr (map_option Delegated (x_ValidateWithPath m path)))"

section \<open>Attaching a drawing\<close>

text \<open>
  The first loop of \<open>SetDrawing\<close>: \<open>rel\<close> starts as the zero value and becomes
  \<open>s.w.xwsRels[i]\<close> at the first \<open>i\<close> with \<open>s.w.xws[i] == s.ws\<close>; indexing \<open>xwsRels\<close> past
  its end panics.
\<close>

fun find_rels :: "ptr list \<Rightarrow> Relationships list \<Rightarrow> ptr \<Rightarrow> nat \<Rightarrow> panic + Relationships" where
  "find_rels [] rels target i = Inr (Relationships None)"
| "find_rels (wks # rest) rels target i =
     (if wks = target
      then (if i < length rels then Inr (rels ! i) else Inl IndexOutOfRange)
      else find_rels rest rels target (Suc i))"

text \<open>The second loop: the first \<open>i\<close> with \<open>d.wb.drawings[i] == d.x\<close>.\<close>

fun find_drawing :: "ptr list \<Rightarrow> ptr \<Rightarrow> nat \<Rightarrow> nat option" where
  "find_drawing [] target i = None"
| "find_drawing (dr # rest) target i =
     (if dr = target then Some i else find_drawing rest target (Suc i))"

text \<open>
  Modelled from the spec: \<open>common.Relationships.AddAutoRelationship\<close> and
  \<open>Relationship.ID\<close> are not among the sources. The spec gives the relationship set an
  operation \<open>addAutoRelationship(documentTypeTag, partIndex, relationshipTypeTag)\<close> that
  returns the new relationship, an entry of the set with an identifier of its own; how
  the identifier is chosen is left open, so it is the parameter \<open>new_id\<close>. On the zero
  value there is no set to add to and the call panics.
\<close>

definition AddAutoRelationship ::
  "(Relationship list \<Rightarrow> string) \<Rightarrow> heap \<Rightarrow> Relationships \<Rightarrow> DocType \<Rightarrow> nat \<Rightarrow> RelType
     \<Rightarrow> panic + (Relationship \<times> heap)" where
  "AddAutoRelationship new_id h rel dt idx ctype =
     (case rels_x rel of
        None \<Rightarrow> Inl NilDereference
      | Some q \<Rightarrow>
          (case relationships h q of
             None \<Rightarrow> Inl NilDereference
           | Some rs \<Rightarrow>
               (let r = \<lparr>rel_ID = new_id rs, rel_DocType = dt, rel_Index = idx, rel_Type = ctype\<rparr>
                in Inr (r, h\<lparr>relationships := (relationships h)(q \<mapsto> rs @ [r])\<rparr>))))"

definition SetDrawing ::
  "(Relationship list \<Rightarrow> string) \<Rightarrow> heap \<Rightarrow> Sheet \<Rightarrow> Drawing \<Rightarrow> panic + heap" where
  "SetDrawing new_id h s d =
     (case workbooks h (sheet_w s) of
        None \<Rightarrow> Inl NilDereference
      | Some wb \<Rightarrow>
          (case find_rels (xws wb) (xwsRels wb) (sheet_ws s) 0 of
             Inl p \<Rightarrow> Inl p
           | Inr rel \<Rightarrow>
               (case workbooks h (drawing_wb d) of
                  None \<Rightarrow> Inl NilDereference
                | Some dwb \<Rightarrow>
                    (case (case find_drawing (drawings dwb) (drawing_x d) 0 of
                             None \<Rightarrow> Inr ('''', h)
                           | Some i \<Rightarrow>
                               (case AddAutoRelationship new_id h rel DocTypeSpreadsheet (i + 1)
                                       DrawingType of
                                  Inl p \<Rightarrow> Inl p
                                | Inr (r, h1) \<Rightarrow> Inr (rel_ID r, h1))) of
                       Inl p \<Rightarrow> Inl p
                     | Inr (drawingID, h1) \<Rightarrow>
                         (case worksheets h1 (sheet_ws s) of
                            None \<Rightarrow> Inl NilDereference
                          | Some wks \<Rightarrow>
                              Inr (h1\<lparr>worksheets := (worksheets h1)(sheet_ws s \<mapsto>
                                     wks\<lparr>ws_Drawing := Some \<lparr>IdAttr = drawingID\<rparr>\<rparr>)\<rparr>))))))"

section \<open>Well-formed sheets\<close>

text \<open>
  A sheet handle is well formed in a heap when its worksheet is allocated, every pointer
  of the row sequence is a live row, and all of them were handed out by the allocator
  (they lie below \<open>next_row\<close>).
\<close>

definition wf_sheet :: "heap \<Rightarrow> Sheet \<Rightarrow> bool" where
  "wf_sheet h s =
     (case worksheets h (sheet_ws s) of
        None \<Rightarrow> False
      | Some wks \<Rightarrow> list_all (\<lambda>r. rows h r \<noteq> None \<and> r < next_row h) (SheetData_Row wks))"

text \<open>The row sequence of a sheet, and the explicit number a row pointer carries.\<close>

definition row_seq :: "heap \<Rightarrow> Sheet \<Rightarrow> ptr list" where
  "row_seq h s = (case worksheets h (sheet_ws s) of None \<Rightarrow> [] | Some wks \<Rightarrow> SheetData_Row wks)"

definition row_number :: "heap \<Rightarrow> ptr \<Rightarrow> uint32 option" where
  "row_number h r = (case rows h r of None \<Rightarrow> None | Some row \<Rightarrow> row_RAttr row)"

text \<open>
  The largest explicit row number among the rows \<open>ps\<close>, a row without a number counting
  as 0.
\<close>

definition max_explicit :: "heap \<Rightarrow> ptr list \<Rightarrow> uint32" where
  "max_explicit h ps = Max (insert 0 (set (List.map_filter (row_number h) ps)))"

text \<open>
  The explicit row numbers of a sheet, one entry per numbered row and in the order of the
  rows, and the explicit addresses of the cells of a row. A row number occurs on two or
  more rows when the first list has a repetition; a cell address occurs twice within a
  single row when the second has one for some row of the sheet.
\<close>

definition explicit_numbers :: "heap \<Rightarrow> ptr list \<Rightarrow> uint32 list" where
  "explicit_numbers h ps = List.map_filter (row_number h) ps"

definition addresses :: "CT_Cell list \<Rightarrow> string list" where
  "addresses cs = List.map_filter cell_RAttr cs"

definition explicit_addresses :: "heap \<Rightarrow> ptr \<Rightarrow> string list" where
  "explicit_addresses h p = (case rows h p of None \<Rightarrow> [] | Some row \<Rightarrow> addresses (row_C row))"

definition repeated_row :: "heap \<Rightarrow> Sheet \<Rightarrow> bool" where
  "repeated_row h s = (\<not> distinct (explicit_numbers h (row_seq h s)))"

definition repeated_cell :: "heap \<Rightarrow> Sheet \<Rightarrow> bool" where
  "repeated_cell h s = list_ex (\<lambda>p. \<not> distinct (explicit_addresses h p)) (row_seq h s)"

text \<open>
  Whether the worksheet of a sheet is among the worksheets its workbook tracks, and
  whether the definition of a drawing is among the drawings its workbook tracks.
\<close>

definition sheet_registered :: "heap \<Rightarrow> Sheet \<Rightarrow> bool" where
  "sheet_registered h s =
     (case workbooks h (sheet_w s) of None \<Rightarrow> False | Some wb \<Rightarrow> sheet_ws s \<in> set (xws wb))"

definition drawing_registered :: "heap \<Rightarrow> Drawing \<Rightarrow> bool" where
  "drawing_registered h d =
     (case workbooks h (drawing_wb d) of None \<Rightarrow> False | Some wb \<Rightarrow> drawing_x d \<in> set (drawings wb))"

section \<open>Example states\<close>

text \<open>
  A workbook with two worksheets and two drawings. The sheet \<open>ex_sheet\<close> is the second
  worksheet; it is named \<open>Sheet1\<close> and holds three rows: one numbered 3, one without a
  number, one numbered 7.
\<close>

definition ex_sheet :: Sheet where
  "ex_sheet = \<lparr>sheet_w = 5, sheet_x = 2, sheet_ws = 3\<rparr>"

definition ex_heap :: heap where
  "ex_heap =
     \<lparr>rows = [10 \<mapsto> \<lparr>row_RAttr = Some 3,
                      row_C = [\<lparr>cell_RAttr = Some ''A3''\<rparr>, \<lparr>cell_RAttr = None\<rparr>,
                               \<lparr>cell_RAttr = None\<rparr>, \<lparr>cell_RAttr = Some ''B3''\<rparr>]\<rparr>,
              11 \<mapsto> \<lparr>row_RAttr = None, row_C = [\<lparr>cell_RAttr = Some ''A3''\<rparr>]\<rparr>,
              12 \<mapsto> \<lparr>row_RAttr = Some 7, row_C = []\<rparr>],
      next_row = 13,
      worksheets = [3 \<mapsto> \<lparr>SheetData_Row = [10, 11, 12], ws_Drawing = None\<rparr>,
                    4 \<mapsto> \<lparr>SheetData_Row = [], ws_Drawing = None\<rparr>],
      sheets = [2 \<mapsto> \<lparr>NameAttr = ''Sheet1''\<rparr>],
      workbooks = [5 \<mapsto> \<lparr>xws = [4, 3],
                          xwsRels = [Relationships (Some 6), Relationships (Some 7)],
                          drawings = [8, 9]\<rparr>],
      relationships = [6 \<mapsto> [],
                       7 \<mapsto> [\<lparr>rel_ID = ''rId1'', rel_DocType = DocTypeSpreadsheet,
                              rel_Index = 2, rel_Type = RelTypeOther ''comments''\<rparr>]]\<rparr>"

text \<open>
  The second drawing of the workbook, and a drawing that the workbook does not hold.
\<close>

definition ex_drawing :: Drawing where
  "ex_drawing = \<lparr>drawing_wb = 5, drawing_x = 9\<rparr>"

definition unknown_drawing :: Drawing where
  "unknown_drawing = \<lparr>drawing_wb = 5, drawing_x = 77\<rparr>"

text \<open>
  The example state with the worksheet of \<open>ex_sheet\<close> taken out of the workbook's list of
  worksheets (and its relationship set with it).
\<close>

definition miss_heap :: heap where
  "miss_heap =
     ex_heap\<lparr>workbooks := [5 \<mapsto> \<lparr>xws = [4], xwsRels = [Relationships (Some 6)],
                                    drawings = [8, 9]\<rparr>]\<rparr>"

text \<open>The same sheet with two rows, neither of them numbered.\<close>

definition un_heap :: heap where
  "un_heap =
     \<lparr>rows = [10 \<mapsto> \<lparr>row_RAttr = None, row_C = [\<lparr>cell_RAttr = Some ''A1''\<rparr>]\<rparr>,
              11 \<mapsto> \<lparr>row_RAttr = None, row_C = []\<rparr>],
      next_row = 12,
      worksheets = [3 \<mapsto> \<lparr>SheetData_Row = [10, 11], ws_Drawing = None\<rparr>],
      sheets = [2 \<mapsto> \<lparr>NameAttr = ''Sheet1''\<rparr>],
      workbooks = Map.empty,
      relationships = Map.empty\<rparr>"

text \<open>The same sheet with one row, numbered with the largest \<open>uint32\<close>.\<close>

definition ov_heap :: heap where
  "ov_heap =
     \<lparr>rows = [10 \<mapsto> \<lparr>row_RAttr = Some 4294967295, row_C = []\<rparr>],
      next_row = 11,
      worksheets = [3 \<mapsto> \<lparr>SheetData_Row = [10], ws_Drawing = None\<rparr>],
      sheets = [2 \<mapsto> \<lparr>NameAttr = ''Sheet1''\<rparr>],
      workbooks = Map.empty,
      relationships = Map.empty\<rparr>"

text \<open>
  The same sheet with two rows that are both numbered 1, the first of which holds two
  cells that are both addressed \<open>A1\<close>.
\<close>

definition dup_heap :: heap where
  "dup_heap =
     \<lparr>rows = [10 \<mapsto> \<lparr>row_RAttr = Some 1,
                      row_C = [\<lparr>cell_RAttr = Some ''A1''\<rparr>, \<lparr>cell_RAttr = Some ''A1''\<rparr>]\<rparr>,
              11 \<mapsto> \<lparr>row_RAttr = Some 1, row_C = []\<rparr>],
      next_row = 12,
      worksheets = [3 \<mapsto> \<lparr>SheetData_Row = [10, 11], ws_Drawing = None\<rparr>],
      sheets = [2 \<mapsto> \<lparr>NameAttr = ''Sheet1''\<rparr>],
      workbooks = Map.empty,
      relationships = Map.empty\<rparr>"

text \<open>Two rows numbered 3, without cells; and one row with two cells addressed \<open>A1\<close>.\<close>

definition dup_row_heap :: heap where
  "dup_row_heap =
     \<lparr>rows = [10 \<mapsto> \<lparr>row_RAttr = Some 3, row_C = []\<rparr>,
              11 \<mapsto> \<lparr>row_RAttr = Some 3, row_C = []\<rparr>],
      next_row = 12,
      worksheets = [3 \<mapsto> \<lparr>SheetData_Row = [10, 11], ws_Drawing = None\<rparr>],
      sheets = [2 \<mapsto> \<lparr>NameAttr = ''Sheet1''\<rparr>],
      workbooks = Map.empty,
      relationships = Map.empty\<rparr>"

definition dup_cell_heap :: heap where
  "dup_cell_heap =
     \<lparr>rows = [10 \<mapsto> \<lparr>row_RAttr = None,
                      row_C = [\<lparr>cell_RAttr = Some ''A1''\<rparr>, \<lparr>cell_RAttr = Some ''A1''\<rparr>]\<rparr>],
      next_row = 11,
      worksheets = [3 \<mapsto> \<lparr>SheetData_Row = [10], ws_Drawing = None\<rparr>],
      sheets = [2 \<mapsto> \<lparr>NameAttr = ''Sheet1''\<rparr>],
      workbooks = Map.empty,
      relationships = Map.empty\<rparr>"

section \<open>Row addressing: proofs\<close>

lemma AddNumberedRow_eq:
  assumes "worksheets h (sheet_ws s) = Some wks"
  shows "AddNumberedRow h s n =
     Inr (\<lparr>row_w = sheet_w s, row_x = next_row h\<rparr>,
          h\<lparr>rows := (rows h)(next_row h \<mapsto> \<lparr>row_RAttr = Some n, row_C = []\<rparr>),
            next_row := Suc (next_row h),
            worksheets := (worksheets h)(sheet_ws s \<mapsto>
               wks\<lparr>SheetData_Row := SheetData_Row wks @ [next_row h]\<rparr>)\<rparr>)"
  using assms by (simp add: AddNumberedRow_def NewCT_Row_def)

lemma wf_sheetD:
  assumes "wf_sheet h s"
  shows "\<exists>wks. worksheets h (sheet_ws s) = Some wks \<and>
           (\<forall>r \<in> set (SheetData_Row wks). rows h r \<noteq> None \<and> r < next_row h)"
  using assms by (simp add: wf_sheet_def list_all_iff split: option.splits)

lemma wf_ex_sheet: "wf_sheet ex_heap ex_sheet"
  by (simp add: wf_sheet_def ex_heap_def ex_sheet_def)

lemma find_row_find:
  assumes "\<forall>r \<in> set ps. rows h r \<noteq> None"
  shows "find_row (rows h) ps n = Inr (find (\<lambda>p. row_number h p = Some n) ps)"
  using assms by (induction ps) (auto simp: row_number_def split: option.splits)

lemma find_row_append:
  "find_row rs (ps @ qs) n =
     (case find_row rs ps n of Inr None \<Rightarrow> find_row rs qs n | res \<Rightarrow> res)"
  by (induction ps) (auto split: option.splits sum.splits)

lemma find_row_cong:
  assumes "\<forall>r \<in> set ps. rs r = rs' r"
  shows "find_row rs ps n = find_row rs' ps n"
  using assms by (induction ps) (auto split: option.splits)

lemma rows_loop_map:
  "rows_loop s ret ps = ret @ map (\<lambda>r. \<lparr>row_w = sheet_w s, row_x = r\<rparr>) ps"
  by (induction ps arbitrary: ret) simp_all

lemma AddNumberedRow_step:
  assumes "worksheets h (sheet_ws s) = Some wks"
  shows "\<exists>r h'. AddNumberedRow h s n = Inr (r, h') \<and>
     worksheets h' (sheet_ws s) = Some (wks\<lparr>SheetData_Row := SheetData_Row wks @ [row_x r]\<rparr>) \<and>
     row_w r = sheet_w s \<and> row_x r = next_row h \<and> next_row h' = Suc (next_row h) \<and>
     row_number h' (row_x r) = Some n \<and>
     (\<forall>p. p \<noteq> row_x r \<longrightarrow> row_number h' p = row_number h p)"
  by (simp add: AddNumberedRow_eq [OF assms] row_number_def)

lemma wf_un_sheet: "wf_sheet un_heap ex_sheet"
  by (simp add: wf_sheet_def un_heap_def ex_sheet_def)

lemma ex_row_seq: "row_seq ex_heap ex_sheet = [10, 11, 12]"
  by (simp add: row_seq_def ex_heap_def ex_sheet_def)

lemma ex_row_numbers:
  "row_number ex_heap 10 = Some 3" "row_number ex_heap 11 = None" "row_number ex_heap 12 = Some 7"
  by (simp_all add: row_number_def ex_heap_def)

text \<open>
  C6. On a well-formed sheet \<open>AddNumberedRow(n)\<close> never fails and appends exactly one row
  to the end of the row sequence: a new row (its pointer is not among the old ones) that
  carries the number \<open>n\<close> and no cells, whatever numbers the sheet already holds. The
  rows stored before keep their order, their numbers and their cells, and the returned
  handle is the workbook pointer of the sheet with the pointer of the new row.
\<close>

theorem AddNumberedRow_appends:
  assumes "wf_sheet h s"
  shows "\<exists>r h'. AddNumberedRow h s n = Inr (r, h') \<and>
     row_seq h' s = row_seq h s @ [row_x r] \<and>
     rows h' (row_x r) = Some \<lparr>row_RAttr = Some n, row_C = []\<rparr> \<and>
     row_w r = sheet_w s \<and>
     row_x r \<notin> set (row_seq h s) \<and>
     map (rows h') (row_seq h s) = map (rows h) (row_seq h s) \<and>
     wf_sheet h' s"
proof -
  from assms obtain wks where wks: "worksheets h (sheet_ws s) = Some wks"
    and live: "\<forall>r \<in> set (SheetData_Row wks). rows h r \<noteq> None \<and> r < next_row h"
    using wf_sheetD by blast
  have fresh: "next_row h \<notin> set (SheetData_Row wks)"
    using live by auto
  show ?thesis
    using wks fresh live
    by (auto simp: AddNumberedRow_eq [OF wks] row_seq_def wf_sheet_def list_all_iff less_Suc_eq)
qed

text \<open>
  The witness adds a second row numbered 3 to the example sheet, which already has one.
\<close>

theorem AddNumberedRow_appends_witness:
  "wf_sheet ex_heap ex_sheet \<and>
   row_number ex_heap 10 = Some 3 \<and>
   (\<exists>r h'. AddNumberedRow ex_heap ex_sheet 3 = Inr (r, h') \<and>
      row_seq h' ex_sheet = [10, 11, 12, row_x r] \<and>
      rows h' (row_x r) = Some \<lparr>row_RAttr = Some 3, row_C = []\<rparr> \<and>
      row_x r \<notin> {10, 11, 12} \<and>
      map (rows h') [10, 11, 12] = map (rows ex_heap) [10, 11, 12])"
proof -
  have seq: "row_seq ex_heap ex_sheet = [10, 11, 12]"
    by (simp add: row_seq_def ex_heap_def ex_sheet_def)
  have num: "row_number ex_heap 10 = Some 3"
    by (simp add: row_number_def ex_heap_def)
  from AddNumberedRow_appends [OF wf_ex_sheet, of 3] obtain r h'
    where "AddNumberedRow ex_heap ex_sheet 3 = Inr (r, h')"
      and "row_seq h' ex_sheet = row_seq ex_heap ex_sheet @ [row_x r]"
      and "rows h' (row_x r) = Some \<lparr>row_RAttr = Some 3, row_C = []\<rparr>"
      and "row_x r \<notin> set (row_seq ex_heap ex_sheet)"
      and "map (rows h') (row_seq ex_heap ex_sheet) = map (rows ex_heap) (row_seq ex_heap ex_sheet)"
    by blast
  then show ?thesis
    using wf_ex_sheet num unfolding seq by auto
qed

text \<open>
  C4. On a well-formed sheet \<open>EnsureRow(n)\<close> returns, and a second call with the same \<open>n\<close>
  on the state the first one left returns the same handle (the same row pointer) and
  leaves that state as it is, so the row sequence does not grow again. The row returned is
  the first one of the sequence whose explicit number is \<open>n\<close>, in which case nothing is
  changed at all; when there is none, one new row numbered \<open>n\<close> is appended.
\<close>

theorem EnsureRow_idempotent:
  assumes "wf_sheet h s"
  shows "\<exists>r h1. EnsureRow h s n = Inr (r, h1) \<and> EnsureRow h1 s n = Inr (r, h1) \<and>
     row_w r = sheet_w s \<and>
     (case find (\<lambda>p. row_number h p = Some n) (row_seq h s) of
        Some p \<Rightarrow> row_x r = p \<and> h1 = h
      | None \<Rightarrow> row_seq h1 s = row_seq h s @ [row_x r] \<and> row_x r \<notin> set (row_seq h s) \<and>
                 rows h1 (row_x r) = Some \<lparr>row_RAttr = Some n, row_C = []\<rparr>)"
proof -
  from assms obtain wks where wks: "worksheets h (sheet_ws s) = Some wks"
    and live: "\<forall>r \<in> set (SheetData_Row wks). rows h r \<noteq> None \<and> r < next_row h"
    using wf_sheetD by blast
  have scan: "find_row (rows h) (SheetData_Row wks) n =
      Inr (find (\<lambda>p. row_number h p = Some n) (SheetData_Row wks))"
    using live by (simp add: find_row_find)
  show ?thesis
  proof (cases "find (\<lambda>p. row_number h p = Some n) (SheetData_Row wks)")
    case (Some p)
    then show ?thesis
      using wks scan by (simp add: EnsureRow_def row_seq_def)
  next
    case None
    let ?r = "next_row h"
    let ?h1 = "h\<lparr>rows := (rows h)(?r \<mapsto> \<lparr>row_RAttr = Some n, row_C = []\<rparr>),
            next_row := Suc ?r,
            worksheets := (worksheets h)(sheet_ws s \<mapsto>
               wks\<lparr>SheetData_Row := SheetData_Row wks @ [?r]\<rparr>)\<rparr>"
    have fresh: "?r \<notin> set (SheetData_Row wks)"
      using live by auto
    have first: "EnsureRow h s n = Inr (\<lparr>row_w = sheet_w s, row_x = ?r\<rparr>, ?h1)"
      using wks scan None by (simp add: EnsureRow_def AddNumberedRow_eq [OF wks])
    have old: "find_row (rows ?h1) (SheetData_Row wks) n = Inr None"
    proof -
      have "find_row (rows ?h1) (SheetData_Row wks) n = find_row (rows h) (SheetData_Row wks) n"
        using fresh by (intro find_row_cong) auto
      then show ?thesis using scan None by simp
    qed
    have second: "EnsureRow ?h1 s n = Inr (\<lparr>row_w = sheet_w s, row_x = ?r\<rparr>, ?h1)"
      using old by (simp add: EnsureRow_def find_row_append)
    show ?thesis
      using first second None wks fresh by (simp add: row_seq_def)
  qed
qed

text \<open>
  The witness looks up 7, which the third row of the example sheet carries, and 9, which
  no row carries.
\<close>

theorem EnsureRow_idempotent_witness:
  "wf_sheet ex_heap ex_sheet \<and>
   (\<exists>r h1. EnsureRow ex_heap ex_sheet 7 = Inr (r, h1) \<and> EnsureRow h1 ex_sheet 7 = Inr (r, h1) \<and>
      row_x r = 12 \<and> h1 = ex_heap) \<and>
   (\<exists>r h1. EnsureRow ex_heap ex_sheet 9 = Inr (r, h1) \<and> EnsureRow h1 ex_sheet 9 = Inr (r, h1) \<and>
      row_seq h1 ex_sheet = [10, 11, 12, row_x r] \<and> row_x r \<notin> {10, 11, 12})"
proof -
  have found: "find (\<lambda>p. row_number ex_heap p = Some 7) [10, 11, 12] = Some 12"
    by (simp add: ex_row_numbers)
  have missing: "find (\<lambda>p. row_number ex_heap p = Some 9) [10, 11, 12] = None"
    by (simp add: ex_row_numbers)
  have a: "\<exists>r h1. EnsureRow ex_heap ex_sheet 7 = Inr (r, h1) \<and> EnsureRow h1 ex_sheet 7 = Inr (r, h1) \<and>
      row_x r = 12 \<and> h1 = ex_heap"
    using EnsureRow_idempotent [OF wf_ex_sheet, of 7] unfolding ex_row_seq found by auto
  have b: "\<exists>r h1. EnsureRow ex_heap ex_sheet 9 = Inr (r, h1) \<and> EnsureRow h1 ex_sheet 9 = Inr (r, h1) \<and>
      row_seq h1 ex_sheet = [10, 11, 12, row_x r] \<and> row_x r \<notin> {10, 11, 12}"
    using EnsureRow_idempotent [OF wf_ex_sheet, of 9] unfolding ex_row_seq missing by auto
  show ?thesis using wf_ex_sheet a b by blast
qed

text \<open>
  C9. On a well-formed sheet the row that \<open>EnsureRow(n)\<close> returns carries the explicit
  number \<open>n\<close>. If it is one of the rows stored before, that row was numbered \<open>n\<close> already
  (a row without a number is never the match) and the state is unchanged; if no stored
  row has a number, a new row is appended.
\<close>

theorem EnsureRow_number:
  assumes "wf_sheet h s"
  shows "\<exists>r h'. EnsureRow h s n = Inr (r, h') \<and> row_number h' (row_x r) = Some n \<and>
     (row_x r \<in> set (row_seq h s) \<longrightarrow> row_number h (row_x r) = Some n \<and> h' = h) \<and>
     (list_all (\<lambda>p. row_number h p = None) (row_seq h s) \<longrightarrow>
        row_seq h' s = row_seq h s @ [row_x r] \<and> row_x r \<notin> set (row_seq h s))"
proof -
  from assms obtain wks where wks: "worksheets h (sheet_ws s) = Some wks"
    and live: "\<forall>r \<in> set (SheetData_Row wks). rows h r \<noteq> None \<and> r < next_row h"
    using wf_sheetD by blast
  have scan: "find_row (rows h) (SheetData_Row wks) n =
      Inr (find (\<lambda>p. row_number h p = Some n) (SheetData_Row wks))"
    using live by (simp add: find_row_find)
  have fresh: "next_row h \<notin> set (SheetData_Row wks)"
    using live by auto
  show ?thesis
  proof (cases "find (\<lambda>p. row_number h p = Some n) (SheetData_Row wks)")
    case (Some p)
    then have "p \<in> set (SheetData_Row wks)" and "row_number h p = Some n"
      by (auto simp: find_Some_iff)
    then show ?thesis
      using wks scan Some by (auto simp: EnsureRow_def row_seq_def list_all_iff)
  next
    case None
    then show ?thesis
      using wks scan fresh
      by (simp add: EnsureRow_def AddNumberedRow_eq [OF wks] row_seq_def row_number_def)
  qed
qed

text \<open>
  The witness asks for row 0 on the sheet whose two rows have no number: neither is taken
  for row 0.
\<close>

theorem EnsureRow_number_witness:
  "wf_sheet un_heap ex_sheet \<and>
   list_all (\<lambda>p. row_number un_heap p = None) (row_seq un_heap ex_sheet) \<and>
   (\<exists>r h'. EnsureRow un_heap ex_sheet 0 = Inr (r, h') \<and> row_number h' (row_x r) = Some 0 \<and>
      row_seq h' ex_sheet = [10, 11, row_x r] \<and> row_x r \<notin> {10, 11})"
proof -
  have seq: "row_seq un_heap ex_sheet = [10, 11]"
    by (simp add: row_seq_def un_heap_def ex_sheet_def)
  have un: "list_all (\<lambda>p. row_number un_heap p = None) (row_seq un_heap ex_sheet)"
    unfolding seq by (simp add: row_number_def un_heap_def)
  show ?thesis
    using EnsureRow_number [OF wf_un_sheet, of 0] un wf_un_sheet unfolding seq by auto
qed

text \<open>
  C7. On a well-formed sheet \<open>Rows()\<close> returns one handle per pointer of the row sequence,
  in the order of the sequence. Rows numbered 5, 2 and 8 added in that order come last
  and in that order.
\<close>

theorem Rows_in_order:
  assumes "wf_sheet h s"
  shows "Rows h s = Inr (map (\<lambda>r. \<lparr>row_w = sheet_w s, row_x = r\<rparr>) (row_seq h s)) \<and>
     (\<exists>r1 h1 r2 h2 r3 h3.
        AddNumberedRow h s 5 = Inr (r1, h1) \<and>
        AddNumberedRow h1 s 2 = Inr (r2, h2) \<and>
        AddNumberedRow h2 s 8 = Inr (r3, h3) \<and>
        Rows h3 s = Inr (map (\<lambda>r. \<lparr>row_w = sheet_w s, row_x = r\<rparr>) (row_seq h s) @ [r1, r2, r3]) \<and>
        map (\<lambda>r. row_number h3 (row_x r)) [r1, r2, r3] = [Some 5, Some 2, Some 8])"
proof -
  from assms obtain wks where wks: "worksheets h (sheet_ws s) = Some wks"
    using wf_sheetD by blast
  have general: "Rows h s = Inr (map (\<lambda>r. \<lparr>row_w = sheet_w s, row_x = r\<rparr>) (row_seq h s))"
    using wks by (simp add: Rows_def row_seq_def rows_loop_map)
  from AddNumberedRow_step [OF wks, of 5] obtain r1 h1
    where a1: "AddNumberedRow h s 5 = Inr (r1, h1)"
      and w1: "worksheets h1 (sheet_ws s) = Some (wks\<lparr>SheetData_Row := SheetData_Row wks @ [row_x r1]\<rparr>)"
      and p1: "row_w r1 = sheet_w s" "row_x r1 = next_row h" "next_row h1 = Suc (next_row h)"
      and n1: "row_number h1 (row_x r1) = Some 5"
    by blast
  from AddNumberedRow_step [OF w1, of 2] obtain r2 h2
    where a2: "AddNumberedRow h1 s 2 = Inr (r2, h2)"
      and w2: "worksheets h2 (sheet_ws s) =
          Some (wks\<lparr>SheetData_Row := SheetData_Row wks @ [row_x r1]\<rparr>
                   \<lparr>SheetData_Row := SheetData_Row (wks\<lparr>SheetData_Row := SheetData_Row wks @ [row_x r1]\<rparr>) @ [row_x r2]\<rparr>)"
      and p2: "row_w r2 = sheet_w s" "row_x r2 = next_row h1" "next_row h2 = Suc (next_row h1)"
      and n2: "row_number h2 (row_x r2) = Some 2"
      and f2: "\<forall>p. p \<noteq> row_x r2 \<longrightarrow> row_number h2 p = row_number h1 p"
    by blast
  from AddNumberedRow_step [OF w2, of 8] obtain r3 h3
    where a3: "AddNumberedRow h2 s 8 = Inr (r3, h3)"
      and w3: "worksheets h3 (sheet_ws s) =
          Some (wks\<lparr>SheetData_Row := SheetData_Row wks @ [row_x r1]\<rparr>
                   \<lparr>SheetData_Row := SheetData_Row (wks\<lparr>SheetData_Row := SheetData_Row wks @ [row_x r1]\<rparr>) @ [row_x r2]\<rparr>
                   \<lparr>SheetData_Row := SheetData_Row (wks\<lparr>SheetData_Row := SheetData_Row wks @ [row_x r1]\<rparr>
                   \<lparr>SheetData_Row := SheetData_Row (wks\<lparr>SheetData_Row := SheetData_Row wks @ [row_x r1]\<rparr>) @ [row_x r2]\<rparr>) @ [row_x r3]\<rparr>)"
      and p3: "row_w r3 = sheet_w s" "row_x r3 = next_row h2" "next_row h3 = Suc (next_row h2)"
      and n3: "row_number h3 (row_x r3) = Some 8"
      and f3: "\<forall>p. p \<noteq> row_x r3 \<longrightarrow> row_number h3 p = row_number h2 p"
    by blast
  have handles: "r1 = \<lparr>row_w = sheet_w s, row_x = row_x r1\<rparr>"
      "r2 = \<lparr>row_w = sheet_w s, row_x = row_x r2\<rparr>" "r3 = \<lparr>row_w = sheet_w s, row_x = row_x r3\<rparr>"
    using p1 p2 p3 by simp_all
  have rows3: "Rows h3 s = Inr (map (\<lambda>r. \<lparr>row_w = sheet_w s, row_x = r\<rparr>) (row_seq h s) @ [r1, r2, r3])"
    using handles by (simp add: Rows_def w3 rows_loop_map row_seq_def wks)
  have m1: "row_number h3 (row_x r1) = Some 5"
    using n1 f2 f3 p1 p2 p3 by simp
  have m2: "row_number h3 (row_x r2) = Some 2"
    using n2 f3 p1 p2 p3 by simp
  show ?thesis
    using general a1 a2 a3 rows3 m1 m2 n3 by auto
qed

theorem Rows_in_order_witness:
  "wf_sheet ex_heap ex_sheet \<and>
   Rows ex_heap ex_sheet = Inr [\<lparr>row_w = 5, row_x = 10\<rparr>, \<lparr>row_w = 5, row_x = 11\<rparr>, \<lparr>row_w = 5, row_x = 12\<rparr>] \<and>
   map (\<lambda>r. row_number ex_heap r) [10, 11, 12] = [Some 3, None, Some 7]"
proof -
  have w: "sheet_w ex_sheet = 5"
    by (simp add: ex_sheet_def)
  show ?thesis
    using Rows_in_order [OF wf_ex_sheet] wf_ex_sheet unfolding ex_row_seq w
    by (simp add: ex_row_numbers)
qed

lemma max_row_id_Max:
  assumes "\<forall>r \<in> set ps. rows h r \<noteq> None"
  shows "max_row_id (rows h) ps a = Inr (Max (insert a (set (List.map_filter (row_number h) ps))))"
  using assms
proof (induction ps arbitrary: a)
  case Nil
  then show ?case by (simp add: List.map_filter_simps)
next
  case (Cons p ps)
  then obtain row where row: "rows h p = Some row" by auto
  let ?S = "set (List.map_filter (row_number h) ps)"
  have fin: "finite ?S" by simp
  show ?case
  proof (cases "row_RAttr row")
    case None
    then show ?thesis
      using Cons row by (simp add: List.map_filter_simps row_number_def)
  next
    case (Some m)
    have ins: "insert a (set (List.map_filter (row_number h) (p # ps))) = insert a (insert m ?S)"
      using row Some by (simp add: List.map_filter_simps row_number_def)
    show ?thesis
    proof (cases "a < m")
      case True
      have "m \<le> Max (insert m ?S)"
        by (rule Max_ge) (use fin in simp_all)
      with True have "a \<le> Max (insert m ?S)"
        by (meson less_imp_le order_trans)
      moreover have "Max (insert a (insert m ?S)) = max a (Max (insert m ?S))"
        by (rule Max_insert) (use fin in simp_all)
      ultimately have "Max (insert a (insert m ?S)) = Max (insert m ?S)"
        by (simp only: max.absorb2)
      then show ?thesis
        using Cons row Some True ins by simp
    next
      case False
      have "a \<le> Max (insert a ?S)"
        by (rule Max_ge) (use fin in simp_all)
      with False have "m \<le> Max (insert a ?S)"
        by (meson not_less order_trans)
      moreover have "Max (insert m (insert a ?S)) = max m (Max (insert a ?S))"
        by (rule Max_insert) (use fin in simp_all)
      ultimately have "Max (insert m (insert a ?S)) = Max (insert a ?S)"
        by (simp only: max.absorb2)
      then have "Max (insert a (insert m ?S)) = Max (insert a ?S)"
        by (simp only: insert_commute [of a m])
      then show ?thesis
        using Cons row Some False ins by simp
    qed
  qed
qed

lemma AddRow_next_number:
  assumes "wf_sheet h s"
  shows "\<exists>r h'. AddRow h s = Inr (r, h') \<and>
     row_number h' (row_x r) = Some (max_explicit h (row_seq h s) + 1) \<and>
     row_seq h' s = row_seq h s @ [row_x r] \<and>
     (max_explicit h (row_seq h s) \<noteq> - 1 \<longrightarrow>
        (\<forall>p \<in> set (row_seq h s). \<forall>m. row_number h p = Some m \<longrightarrow> m < max_explicit h (row_seq h s) + 1))"
proof -
  from assms obtain wks where wks: "worksheets h (sheet_ws s) = Some wks"
    and live: "\<forall>r \<in> set (SheetData_Row wks). rows h r \<noteq> None \<and> r < next_row h"
    using wf_sheetD by blast
  let ?M = "max_explicit h (SheetData_Row wks)"
  have scan: "max_row_id (rows h) (SheetData_Row wks) 0 = Inr ?M"
    using live by (simp add: max_row_id_Max max_explicit_def)
  have le: "m \<le> ?M" if "p \<in> set (SheetData_Row wks)" "row_number h p = Some m" for p m
  proof -
    have "m \<in> set (List.map_filter (row_number h) (SheetData_Row wks))"
      using that by (force simp: List.map_filter_def)
    then show ?thesis
      by (simp add: max_explicit_def)
  qed
  have lt: "m < ?M + 1" if "?M \<noteq> - 1" "p \<in> set (SheetData_Row wks)" "row_number h p = Some m" for p m
  proof -
    have "?M < ?M + 1"
      using that(1) by (meson inc_less_eq_triv_imp not_le)
    with le [OF that(2,3)] show ?thesis by simp
  qed
  show ?thesis
    using wks scan lt
    by (auto simp: AddRow_def AddNumberedRow_eq [OF wks] row_seq_def row_number_def)
qed

text \<open>
  C5. The sheet \<open>ov_heap\<close> holds one row, numbered 4294967295. \<open>AddRow()\<close> appends a row
  numbered 0 to it: \<open>maxRowID + 1\<close> wraps around, and the new number is below the one
  the sheet already holds. Away from that bound (lemma \<open>AddRow_next_number\<close>) the new
  number is the largest explicit number plus one and exceeds every number present.
\<close>

theorem AddRow_wraps:
  "\<exists>r h'. AddRow ov_heap ex_sheet = Inr (r, h') \<and>
     row_seq ov_heap ex_sheet = [10] \<and> row_number ov_heap 10 = Some 4294967295 \<and>
     row_seq h' ex_sheet = [10, row_x r] \<and> row_number h' (row_x r) = Some 0"
  by (simp add: AddRow_def AddNumberedRow_def NewCT_Row_def ov_heap_def ex_sheet_def
      row_seq_def row_number_def)

section \<open>Validation: proofs\<close>

lemma addresses_simps:
  "addresses [] = []"
  "addresses (c # cs) = (case cell_RAttr c of None \<Rightarrow> addresses cs | Some a \<Rightarrow> a # addresses cs)"
  by (simp_all add: addresses_def List.map_filter_simps split: option.splits)

lemma explicit_numbers_simps:
  "explicit_numbers h [] = []"
  "explicit_numbers h (p # ps) =
     (case row_number h p of None \<Rightarrow> explicit_numbers h ps | Some n \<Rightarrow> n # explicit_numbers h ps)"
  by (simp_all add: explicit_numbers_def List.map_filter_simps split: option.splits)

lemma count_list_member: "a \<in> set xs \<Longrightarrow> 1 \<le> count_list xs a"
  by (induction xs) auto

lemma validate_cells_None:
  "validate_cells h s W cs = Inr None \<longleftrightarrow>
     distinct (addresses cs) \<and> set (addresses cs) \<inter> W = {}"
  by (induction cs arbitrary: W)
    (auto simp: addresses_simps Name_def split: option.splits sum.splits)

lemma validate_cells_Some:
  assumes "validate_cells h s W cs = Inr (Some e)"
  shows "\<exists>nm a. Name h s = Inr nm \<and> e = ReusedCell nm a \<and>
           (a \<in> W \<and> a \<in> set (addresses cs) \<or> 2 \<le> count_list (addresses cs) a)"
  using assms
proof (induction cs arbitrary: W)
  case Nil
  then show ?case by simp
next
  case (Cons c cs)
  show ?case
  proof (cases "cell_RAttr c")
    case None
    then show ?thesis
      using Cons by (simp add: addresses_simps)
  next
    case (Some a)
    show ?thesis
    proof (cases "a \<in> W")
      case True
      then show ?thesis
        using Cons.prems Some by (auto simp: addresses_simps split: sum.splits)
    next
      case False
      then have "validate_cells h s (insert a W) cs = Inr (Some e)"
        using Cons.prems Some by simp
      from Cons.IH [OF this] obtain nm b where nm: "Name h s = Inr nm" "e = ReusedCell nm b"
        and b: "b \<in> insert a W \<and> b \<in> set (addresses cs) \<or> 2 \<le> count_list (addresses cs) b"
        by blast
      have "b \<in> W \<and> b \<in> set (addresses (c # cs)) \<or> 2 \<le> count_list (addresses (c # cs)) b"
        using b Some count_list_member [of b "addresses cs"] by (auto simp: addresses_simps)
      then show ?thesis using nm by blast
    qed
  qed
qed

lemma validate_cells_total:
  assumes "Name h s = Inr nm"
  shows "\<exists>res :: 'e error option. validate_cells h s W cs = Inr res"
  using assms by (induction cs arbitrary: W) (auto split: option.splits)

lemma validate_rows_None:
  assumes "\<forall>p \<in> set ps. rows h p \<noteq> None"
  shows "validate_rows h s U ps = Inr None \<longleftrightarrow>
     distinct (explicit_numbers h ps) \<and> set (explicit_numbers h ps) \<inter> U = {} \<and>
     (\<forall>p \<in> set ps. distinct (explicit_addresses h p))"
  using assms
proof (induction ps arbitrary: U)
  case Nil
  then show ?case by (simp add: explicit_numbers_simps)
next
  case (Cons p ps)
  then obtain row where row: "rows h p = Some row" by auto
  have live: "\<forall>p \<in> set ps. rows h p \<noteq> None"
    using Cons.prems by simp
  note IH = Cons.IH [OF live]
  have cells: "validate_cells h s {} (row_C row) = Inr None \<longleftrightarrow> distinct (explicit_addresses h p)"
    by (simp add: validate_cells_None explicit_addresses_def row)
  show ?case
  proof (cases "row_RAttr row")
    case None
    then show ?thesis
      using row IH [of U] cells
      by (auto simp: explicit_numbers_simps row_number_def split: sum.splits option.splits)
  next
    case (Some n)
    then show ?thesis
      using row IH [of "insert n U"] cells
      by (auto simp: explicit_numbers_simps row_number_def Name_def split: sum.splits option.splits)
  qed
qed

lemma validate_rows_Some:
  fixes e :: "'e error"
  assumes "\<forall>p \<in> set ps. rows h p \<noteq> None"
    and "validate_rows h s U ps = Inr (Some e)"
  shows "\<exists>nm. Name h s = Inr nm \<and>
     ((\<exists>n. e = ReusedRow nm n \<and>
           (n \<in> U \<and> n \<in> set (explicit_numbers h ps) \<or> 2 \<le> count_list (explicit_numbers h ps) n)) \<or>
      (\<exists>a p. e = ReusedCell nm a \<and> p \<in> set ps \<and> 2 \<le> count_list (explicit_addresses h p) a))"
  using assms
proof (induction ps arbitrary: U)
  case Nil
  then show ?case by simp
next
  case (Cons p ps)
  then obtain row where row: "rows h p = Some row" by auto
  have live: "\<forall>p \<in> set ps. rows h p \<noteq> None"
    using Cons.prems by simp
  note IH = Cons.IH [OF live]
  have addr: "explicit_addresses h p = addresses (row_C row)"
    by (simp add: explicit_addresses_def row)
  show ?case
  proof (cases "row_RAttr row \<noteq> None \<and> the (row_RAttr row) \<in> U")
    case True
    then obtain n where n: "row_RAttr row = Some n" "n \<in> U" by auto
    then show ?thesis
      using Cons.prems(2) row
      by (auto simp: explicit_numbers_simps row_number_def split: sum.splits)
  next
    case False
    show ?thesis
    proof (cases "validate_cells h s {} (row_C row) :: panic + 'e error option")
      case (Inl q)
      then show ?thesis using Cons.prems(2) row False by auto
    next
      case (Inr res)
      show ?thesis
      proof (cases res)
        case (Some e')
        then have e': "e' = e"
          using Cons.prems(2) row False Inr by auto
        from validate_cells_Some [of h s "{}" "row_C row" e] Inr Some e'
        obtain nm a where "Name h s = Inr nm" "e = ReusedCell nm a"
          "2 \<le> count_list (addresses (row_C row)) a"
          by auto
        then show ?thesis
          using addr by auto
      next
        case None
        let ?U = "case row_RAttr row of None \<Rightarrow> U | Some n \<Rightarrow> insert n U"
        have rec: "validate_rows h s ?U ps = Inr (Some e)"
          using Cons.prems(2) row False Inr None by auto
        from IH [OF rec] obtain nm where nm: "Name h s = Inr nm"
          and alt: "(\<exists>n. e = ReusedRow nm n \<and>
             (n \<in> ?U \<and> n \<in> set (explicit_numbers h ps) \<or> 2 \<le> count_list (explicit_numbers h ps) n)) \<or>
            (\<exists>a p. e = ReusedCell nm a \<and> p \<in> set ps \<and> 2 \<le> count_list (explicit_addresses h p) a)"
          by blast
        from alt show ?thesis
        proof
          assume "\<exists>n. e = ReusedRow nm n \<and>
             (n \<in> ?U \<and> n \<in> set (explicit_numbers h ps) \<or> 2 \<le> count_list (explicit_numbers h ps) n)"
          then obtain n where e: "e = ReusedRow nm n"
            and n: "n \<in> ?U \<and> n \<in> set (explicit_numbers h ps) \<or> 2 \<le> count_list (explicit_numbers h ps) n"
            by blast
          have "n \<in> U \<and> n \<in> set (explicit_numbers h (p # ps)) \<or>
              2 \<le> count_list (explicit_numbers h (p # ps)) n"
            using n row count_list_member [of n "explicit_numbers h ps"]
            by (auto simp: explicit_numbers_simps row_number_def split: option.splits)
          then show ?thesis using nm e by blast
        next
          assume "\<exists>a p. e = ReusedCell nm a \<and> p \<in> set ps \<and> 2 \<le> count_list (explicit_addresses h p) a"
          then show ?thesis using nm by auto
        qed
      qed
    qed
  qed
qed

lemma validate_rows_total:
  assumes "\<forall>p \<in> set ps. rows h p \<noteq> None" and "Name h s = Inr nm"
  shows "\<exists>res :: 'e error option. validate_rows h s U ps = Inr res"
  using assms
proof (induction ps arbitrary: U)
  case Nil
  then show ?case by simp
next
  case (Cons p ps)
  then obtain row where row: "rows h p = Some row" by auto
  obtain res :: "'e error option" where cells: "validate_cells h s {} (row_C row) = Inr res"
    using validate_cells_total [OF Cons.prems(2)] by blast
  have "\<exists>res :: 'e error option. validate_rows h s U' ps = Inr res" for U'
    using Cons by simp
  then show ?case
    using row cells Cons.prems(2) by (cases res) auto
qed

lemma count_list_distinct: "2 \<le> count_list xs a \<Longrightarrow> \<not> distinct xs"
  by (induction xs) (auto split: if_splits dest: count_list_member simp: count_list_0_iff)

lemma Validate_scan:
  fixes xv :: "CT_Sheet \<Rightarrow> 'e option"
  assumes "wf_sheet h s" and wks: "worksheets h (sheet_ws s) = Some wks"
    and m: "sheets h (sheet_x s) = Some m"
  shows "\<exists>res. validate_rows h s {} (SheetData_Row wks) = Inr res \<and>
     Validate xv wv h s =
       (case res of
          Some e \<Rightarrow> Inr (Some e)
        | None \<Rightarrow> Inr (case xv m of Some err \<Rightarrow> Some (Delegated err)
                       | None \<Rightarrow> map_option Delegated (wv h wks))) \<and>
     (res = None \<longleftrightarrow> \<not> repeated_row h s \<and> \<not> repeated_cell h s) \<and>
     (\<forall>e. res = Some e \<longrightarrow>
        (\<exists>n. e = ReusedRow (NameAttr m) n \<and> 2 \<le> count_list (explicit_numbers h (row_seq h s)) n) \<or>
        (\<exists>a. e = ReusedCell (NameAttr m) a \<and>
           list_ex (\<lambda>p. 2 \<le> count_list (explicit_addresses h p) a) (row_seq h s)))"
proof -
  from assms(1) wks have live: "\<forall>p \<in> set (SheetData_Row wks). rows h p \<noteq> None"
    using wf_sheetD by fastforce
  have nm: "Name h s = Inr (NameAttr m)"
    by (simp add: Name_def m)
  have seq: "row_seq h s = SheetData_Row wks"
    by (simp add: row_seq_def wks)
  obtain res :: "'e error option" where res: "validate_rows h s {} (SheetData_Row wks) = Inr res"
    using validate_rows_total [OF live nm] by blast
  have val: "Validate xv wv h s =
       (case res of
          Some e \<Rightarrow> Inr (Some e)
        | None \<Rightarrow> Inr (case xv m of Some err \<Rightarrow> Some (Delegated err)
                       | None \<Rightarrow> map_option Delegated (wv h wks)))"
    by (simp add: Validate_def wks res m split: option.splits)
  have none: "res = None \<longleftrightarrow> \<not> repeated_row h s \<and> \<not> repeated_cell h s"
  proof -
    have "(validate_rows h s {} (SheetData_Row wks) :: panic + 'e error option) = Inr None \<longleftrightarrow>
        distinct (explicit_numbers h (SheetData_Row wks)) \<and>
        set (explicit_numbers h (SheetData_Row wks)) \<inter> {} = {} \<and>
        (\<forall>p \<in> set (SheetData_Row wks). distinct (explicit_addresses h p))"
      by (rule validate_rows_None [OF live])
    then show ?thesis
      using res by (simp add: repeated_row_def repeated_cell_def seq list_ex_iff)
  qed
  have some: "(\<exists>n. e = ReusedRow (NameAttr m) n \<and> 2 \<le> count_list (explicit_numbers h (row_seq h s)) n) \<or>
        (\<exists>a. e = ReusedCell (NameAttr m) a \<and>
           list_ex (\<lambda>p. 2 \<le> count_list (explicit_addresses h p) a) (row_seq h s))"
    if "res = Some e" for e
    using validate_rows_Some [OF live, of s "{}" e] res that nm
    by (auto simp: seq list_ex_iff)
  show ?thesis
    using res val none some by blast
qed

lemma ex_no_repetition: "\<not> repeated_row ex_heap ex_sheet" "\<not> repeated_cell ex_heap ex_sheet"
  by (simp_all add: repeated_row_def repeated_cell_def ex_row_seq explicit_numbers_simps
      ex_row_numbers explicit_addresses_def addresses_simps)
    (simp_all add: ex_heap_def addresses_simps)

text \<open>
  C1, as amended. \<open>Validate()\<close> makes one pass over the rows and, within each row, over
  its cells, and stops at the first duplicate it meets. On a well-formed sheet with a
  metadata record it therefore fails with a duplicate-row or a duplicate-cell error,
  naming the sheet, if and only if some explicit row number stands on two or more rows or
  some explicit cell address stands twice within one row. A duplicate-row error names a
  number that stands on two or more rows, and a duplicate-cell error an address that
  stands twice within one row of the sheet. When no row repeats an address, the
  duplicate-row error is returned exactly when a row number is repeated; when no row
  number is repeated, the duplicate-cell error exactly when some row repeats an address.
  Rows without a number and cells without an address are not counted, and an address is
  only compared with the addresses of the same row. With neither kind of repetition the
  result is that of the delegated validators.
\<close>

theorem Validate_duplicates:
  fixes xv :: "CT_Sheet \<Rightarrow> 'e option"
  assumes "wf_sheet h s" and "worksheets h (sheet_ws s) = Some wks"
    and "sheets h (sheet_x s) = Some m"
  shows "let V = Validate xv wv h s in
     (((\<exists>n. V = Inr (Some (ReusedRow (NameAttr m) n))) \<or>
       (\<exists>a. V = Inr (Some (ReusedCell (NameAttr m) a)))) \<longleftrightarrow>
        (repeated_row h s \<or> repeated_cell h s)) \<and>
     (\<forall>nm n. V = Inr (Some (ReusedRow nm n)) \<longrightarrow>
        nm = NameAttr m \<and> 2 \<le> count_list (explicit_numbers h (row_seq h s)) n) \<and>
     (\<forall>nm a. V = Inr (Some (ReusedCell nm a)) \<longrightarrow>
        nm = NameAttr m \<and> list_ex (\<lambda>p. 2 \<le> count_list (explicit_addresses h p) a) (row_seq h s)) \<and>
     (\<not> repeated_cell h s \<longrightarrow>
        ((\<exists>n. V = Inr (Some (ReusedRow (NameAttr m) n))) \<longleftrightarrow> repeated_row h s)) \<and>
     (\<not> repeated_row h s \<longrightarrow>
        ((\<exists>a. V = Inr (Some (ReusedCell (NameAttr m) a))) \<longleftrightarrow> repeated_cell h s)) \<and>
     (\<not> repeated_row h s \<and> \<not> repeated_cell h s \<longrightarrow>
        V = Inr (case xv m of Some err \<Rightarrow> Some (Delegated err)
                 | None \<Rightarrow> map_option Delegated (wv h wks)))"
proof -
  let ?D = "case xv m of Some err \<Rightarrow> Some (Delegated err)
                 | None \<Rightarrow> map_option Delegated (wv h wks)"
  from Validate_scan [OF assms, of xv wv] obtain res
    where val: "Validate xv wv h s = (case res of Some e \<Rightarrow> Inr (Some e) | None \<Rightarrow> Inr ?D)"
      and none: "res = None \<longleftrightarrow> \<not> repeated_row h s \<and> \<not> repeated_cell h s"
      and some: "\<forall>e. res = Some e \<longrightarrow>
        (\<exists>n. e = ReusedRow (NameAttr m) n \<and> 2 \<le> count_list (explicit_numbers h (row_seq h s)) n) \<or>
        (\<exists>a. e = ReusedCell (NameAttr m) a \<and>
           list_ex (\<lambda>p. 2 \<le> count_list (explicit_addresses h p) a) (row_seq h s))"
    by blast
  have deleg: "?D \<noteq> Some (ReusedRow nm n)" "?D \<noteq> Some (ReusedCell nm a)" for nm n a
    by (auto split: option.splits)
  have rowD: "repeated_row h s" if "2 \<le> count_list (explicit_numbers h (row_seq h s)) n" for n
    using that by (auto simp: repeated_row_def dest: count_list_distinct)
  have cellD: "repeated_cell h s"
    if "list_ex (\<lambda>p. 2 \<le> count_list (explicit_addresses h p) a) (row_seq h s)" for a
    using that by (auto simp: repeated_cell_def list_ex_iff dest: count_list_distinct)
  show ?thesis
  proof (cases res)
    case None
    then show ?thesis
      using val none deleg by (simp add: Let_def)
  next
    case (Some e)
    then have rep: "repeated_row h s \<or> repeated_cell h s"
      using none by auto
    from some Some consider
      (row) n where "e = ReusedRow (NameAttr m) n" "2 \<le> count_list (explicit_numbers h (row_seq h s)) n"
      | (cell) a where "e = ReusedCell (NameAttr m) a"
          "list_ex (\<lambda>p. 2 \<le> count_list (explicit_addresses h p) a) (row_seq h s)"
      by blast
    then show ?thesis
    proof cases
      case row
      then show ?thesis
        using val Some rowD [OF row(2)] by (simp add: Let_def)
    next
      case cell
      then show ?thesis
        using val Some cellD [OF cell(2)] by (simp add: Let_def)
    qed
  qed
qed

text \<open>
  The claim as stated fails where both kinds of repetition are present: in \<open>dup_heap\<close>
  the number 1 stands on two rows, yet the error returned is the duplicate-cell error of
  the first row, which the pass meets before it reaches the second row.
\<close>

theorem Validate_duplicates_counterexample:
  "repeated_row dup_heap ex_sheet \<and>
   Validate (\<lambda>_. None) (\<lambda>_ _. None) dup_heap ex_sheet =
     Inr (Some (ReusedCell ''Sheet1'' ''A1'' :: unit error)) \<and>
   \<not> ((\<exists>n. Validate (\<lambda>_. None) (\<lambda>_ _. None) dup_heap ex_sheet =
           Inr (Some (ReusedRow ''Sheet1'' n :: unit error))) \<longleftrightarrow>
       repeated_row dup_heap ex_sheet)"
proof -
  have rep: "repeated_row dup_heap ex_sheet"
    by (simp add: repeated_row_def row_seq_def explicit_numbers_simps row_number_def
        dup_heap_def ex_sheet_def)
  have val: "Validate (\<lambda>_. None) (\<lambda>_ _. None) dup_heap ex_sheet =
     Inr (Some (ReusedCell ''Sheet1'' ''A1'' :: unit error))"
    by (simp add: Validate_def Name_def dup_heap_def ex_sheet_def)
  show ?thesis
    using rep val by simp
qed

text \<open>
  The example sheet has an unnumbered row, two cells without an address in one row and
  the address \<open>A3\<close> in two different rows; it passes. Two rows numbered 3 give the
  duplicate-row error naming 3, two cells addressed \<open>A1\<close> in one row the duplicate-cell
  error naming \<open>A1\<close>.
\<close>

theorem Validate_duplicates_witness:
  "wf_sheet ex_heap ex_sheet \<and>
   sheets ex_heap (sheet_x ex_sheet) = Some \<lparr>NameAttr = ''Sheet1''\<rparr> \<and>
   \<not> repeated_row ex_heap ex_sheet \<and> \<not> repeated_cell ex_heap ex_sheet \<and>
   Validate (\<lambda>_. None) (\<lambda>_ _. None) ex_heap ex_sheet = Inr (None :: unit error option) \<and>
   Validate (\<lambda>_. None) (\<lambda>_ _. None) dup_row_heap ex_sheet =
     Inr (Some (ReusedRow ''Sheet1'' 3 :: unit error)) \<and>
   Validate (\<lambda>_. None) (\<lambda>_ _. None) dup_cell_heap ex_sheet =
     Inr (Some (ReusedCell ''Sheet1'' ''A1'' :: unit error))"
proof -
  have wks: "worksheets ex_heap (sheet_ws ex_sheet) =
      Some \<lparr>SheetData_Row = [10, 11, 12], ws_Drawing = None\<rparr>"
    by (simp add: ex_heap_def ex_sheet_def)
  have m: "sheets ex_heap (sheet_x ex_sheet) = Some \<lparr>NameAttr = ''Sheet1''\<rparr>"
    by (simp add: ex_heap_def ex_sheet_def)
  have pass: "Validate (\<lambda>_. None) (\<lambda>_ _. None) ex_heap ex_sheet = Inr (None :: unit error option)"
    using Validate_duplicates [OF wf_ex_sheet wks m, of "\<lambda>_. None :: unit option" "\<lambda>_ _. None"]
      ex_no_repetition
    by (simp add: Let_def)
  have row: "Validate (\<lambda>_. None) (\<lambda>_ _. None) dup_row_heap ex_sheet =
     Inr (Some (ReusedRow ''Sheet1'' 3 :: unit error))"
    by (simp add: Validate_def Name_def dup_row_heap_def ex_sheet_def)
  have cell: "Validate (\<lambda>_. None) (\<lambda>_ _. None) dup_cell_heap ex_sheet =
     Inr (Some (ReusedCell ''Sheet1'' ''A1'' :: unit error))"
    by (simp add: Validate_def Name_def dup_cell_heap_def ex_sheet_def)
  show ?thesis
    using wf_ex_sheet m ex_no_repetition pass row cell by simp
qed

text \<open>
  C10. When the duplicate checks pass, \<open>Validate()\<close> returns the error of the metadata
  validator if it has one, and the result of the worksheet validator otherwise. When the
  metadata validator fails, its error is returned whatever the worksheet validator is:
  the result does not depend on it.
\<close>

theorem Validate_delegates_in_order:
  fixes xv :: "CT_Sheet \<Rightarrow> 'e option"
  assumes "wf_sheet h s" and "worksheets h (sheet_ws s) = Some wks"
    and "sheets h (sheet_x s) = Some m"
    and "\<not> repeated_row h s" and "\<not> repeated_cell h s"
  shows "Validate xv wv h s =
       Inr (case xv m of Some err \<Rightarrow> Some (Delegated err)
            | None \<Rightarrow> map_option Delegated (wv h wks)) \<and>
     (\<forall>err. xv m = Some err \<longrightarrow> (\<forall>wv'. Validate xv wv' h s = Inr (Some (Delegated err))))"
proof -
  have "Validate xv wv' h s =
       Inr (case xv m of Some err \<Rightarrow> Some (Delegated err)
            | None \<Rightarrow> map_option Delegated (wv' h wks))" for wv'
    using Validate_scan [OF assms(1-3), of xv wv'] assms(4,5) by auto
  then show ?thesis by simp
qed

text \<open>In the witness both delegated validators fail, and then only the second.\<close>

theorem Validate_delegates_in_order_witness:
  "wf_sheet ex_heap ex_sheet \<and>
   \<not> repeated_row ex_heap ex_sheet \<and> \<not> repeated_cell ex_heap ex_sheet \<and>
   Validate (\<lambda>_. Some ''metadata'') (\<lambda>_ _. Some ''tree'') ex_heap ex_sheet =
     Inr (Some (Delegated ''metadata'')) \<and>
   Validate (\<lambda>_. None) (\<lambda>_ _. Some ''tree'') ex_heap ex_sheet =
     Inr (Some (Delegated ''tree''))"
proof -
  have wks: "worksheets ex_heap (sheet_ws ex_sheet) =
      Some \<lparr>SheetData_Row = [10, 11, 12], ws_Drawing = None\<rparr>"
    by (simp add: ex_heap_def ex_sheet_def)
  have m: "sheets ex_heap (sheet_x ex_sheet) = Some \<lparr>NameAttr = ''Sheet1''\<rparr>"
    by (simp add: ex_heap_def ex_sheet_def)
  note inst = Validate_delegates_in_order [OF wf_ex_sheet wks m ex_no_repetition]
  show ?thesis
    using inst [of "\<lambda>_. Some ''metadata''" "\<lambda>_ _. Some ''tree''"]
      inst [of "\<lambda>_. None" "\<lambda>_ _. Some ''tree''"] wf_ex_sheet ex_no_repetition
    by simp
qed

text \<open>
  C8. \<open>ValidateWithPath(path)\<close> returns the result of the metadata record's
  \<open>ValidateWithPath(path)\<close> and nothing else: it is the same in every state that holds
  the same metadata record, whatever the rows, the cells and the worksheet are.
\<close>

theorem ValidateWithPath_metadata_only:
  fixes xvp :: "CT_Sheet \<Rightarrow> string \<Rightarrow> 'e option"
  assumes "sheets h (sheet_x s) = Some m"
  shows "ValidateWithPath xvp h s path = Inr (map_option Delegated (xvp m path)) \<and>
     (\<forall>h'. sheets h' (sheet_x s) = Some m \<longrightarrow>
        ValidateWithPath xvp h' s path = ValidateWithPath xvp h s path)"
  using assms by (simp add: ValidateWithPath_def)

text \<open>
  In the witness the sheet has a repeated cell address and a failing worksheet validator:
  \<open>Validate()\<close> fails and \<open>ValidateWithPath\<close> passes.
\<close>

theorem ValidateWithPath_metadata_only_witness:
  "sheets dup_heap (sheet_x ex_sheet) = Some \<lparr>NameAttr = ''Sheet1''\<rparr> \<and>
   ValidateWithPath (\<lambda>_ _. None) dup_heap ex_sheet ''xl/workbook.xml'' = Inr (None :: string error option) \<and>
   Validate (\<lambda>_. None) (\<lambda>_ _. Some ''tree'') dup_heap ex_sheet =
     Inr (Some (ReusedCell ''Sheet1'' ''A1''))"
proof -
  have m: "sheets dup_heap (sheet_x ex_sheet) = Some \<lparr>NameAttr = ''Sheet1''\<rparr>"
    by (simp add: dup_heap_def ex_sheet_def)
  have val: "Validate (\<lambda>_. None) (\<lambda>_ _. Some ''tree'') dup_heap ex_sheet =
     Inr (Some (ReusedCell ''Sheet1'' ''A1''))"
    by (simp add: Validate_def Name_def dup_heap_def ex_sheet_def)
  show ?thesis
    using ValidateWithPath_metadata_only [OF m, of "\<lambda>_ _. None :: string option" "''xl/workbook.xml''"]
      m val
    by simp
qed

section \<open>Attaching a drawing: proofs\<close>

lemma find_rels_at:
  assumes "i < length ws" and "ws ! i = t" and "\<forall>k<i. ws ! k \<noteq> t"
  shows "find_rels ws rels t n =
     (if n + i < length rels then Inr (rels ! (n + i)) else Inl IndexOutOfRange)"
  using assms
proof (induction ws arbitrary: i n)
  case Nil
  then show ?case by simp
next
  case (Cons w ws)
  show ?case
  proof (cases i)
    case 0
    then show ?thesis using Cons.prems by simp
  next
    case (Suc i')
    have "w \<noteq> t"
      using Cons.prems(3) Suc by auto
    moreover have "find_rels ws rels t (Suc n) =
        (if Suc n + i' < length rels then Inr (rels ! (Suc n + i')) else Inl IndexOutOfRange)"
      using Cons.prems Suc by (intro Cons.IH) auto
    ultimately show ?thesis using Suc by simp
  qed
qed

lemma find_rels_miss:
  "t \<notin> set ws \<Longrightarrow> find_rels ws rels t n = Inr (Relationships None)"
  by (induction ws arbitrary: n) auto

lemma find_rels_aligned:
  "length ws + n \<le> length rels \<Longrightarrow> \<exists>rel. find_rels ws rels t n = Inr rel"
  by (induction ws arbitrary: n) auto

lemma find_drawing_at:
  assumes "j < length ds" and "ds ! j = t" and "\<forall>k<j. ds ! k \<noteq> t"
  shows "find_drawing ds t n = Some (n + j)"
  using assms
proof (induction ds arbitrary: j n)
  case Nil
  then show ?case by simp
next
  case (Cons d ds)
  show ?case
  proof (cases j)
    case 0
    then show ?thesis using Cons.prems by simp
  next
    case (Suc j')
    have "d \<noteq> t"
      using Cons.prems(3) Suc by auto
    moreover have "find_drawing ds t (Suc n) = Some (Suc n + j')"
      using Cons.prems Suc by (intro Cons.IH) auto
    ultimately show ?thesis using Suc by simp
  qed
qed

lemma find_drawing_miss: "t \<notin> set ds \<Longrightarrow> find_drawing ds t n = None"
  by (induction ds arbitrary: n) auto

text \<open>
  C2. Let the worksheet of the sheet be at position \<open>i\<close> of \<open>s.w.xws\<close> (the first such
  position, should the pointer stand there more than once), let \<open>s.w.xwsRels[i]\<close> be a
  handle on the live relationship set \<open>q\<close>, and let the definition of the drawing be at
  position \<open>j\<close> of \<open>d.wb.drawings\<close>. Then \<open>SetDrawing(d)\<close> returns; relationship set \<open>q\<close> has
  gained exactly one entry, at its end, of type \<open>DrawingType\<close>, document type
  \<open>DocTypeSpreadsheet\<close> and part index \<open>j + 1\<close>; every other relationship set is as
  before; and the drawing reference of the worksheet holds the identifier of the new
  entry. Nothing else in the state changes.
\<close>

theorem SetDrawing_links:
  assumes wb: "workbooks h (sheet_w s) = Some wb"
    and i: "i < length (xws wb)" "xws wb ! i = sheet_ws s" "\<forall>k<i. xws wb ! k \<noteq> sheet_ws s"
    and rel: "i < length (xwsRels wb)" "xwsRels wb ! i = Relationships (Some q)"
      "relationships h q = Some rs"
    and dwb: "workbooks h (drawing_wb d) = Some dwb"
    and j: "j < length (drawings dwb)" "drawings dwb ! j = drawing_x d"
      "\<forall>k<j. drawings dwb ! k \<noteq> drawing_x d"
    and wks: "worksheets h (sheet_ws s) = Some wks"
  shows "\<exists>h'. SetDrawing new_id h s d = Inr h' \<and>
     relationships h' q =
       Some (rs @ [\<lparr>rel_ID = new_id rs, rel_DocType = DocTypeSpreadsheet,
                    rel_Index = j + 1, rel_Type = DrawingType\<rparr>]) \<and>
     (\<forall>q'. q' \<noteq> q \<longrightarrow> relationships h' q' = relationships h q') \<and>
     worksheets h' (sheet_ws s) = Some (wks\<lparr>ws_Drawing := Some \<lparr>IdAttr = new_id rs\<rparr>\<rparr>) \<and>
     (\<forall>p. p \<noteq> sheet_ws s \<longrightarrow> worksheets h' p = worksheets h p) \<and>
     rows h' = rows h \<and> sheets h' = sheets h \<and> workbooks h' = workbooks h"
proof -
  have scan1: "find_rels (xws wb) (xwsRels wb) (sheet_ws s) 0 = Inr (Relationships (Some q))"
    using find_rels_at [OF i, of "xwsRels wb" 0] rel by simp
  have scan2: "find_drawing (drawings dwb) (drawing_x d) 0 = Some j"
    using find_drawing_at [OF j, of 0] by simp
  show ?thesis
    by (simp add: SetDrawing_def wb dwb scan1 scan2 AddAutoRelationship_def Let_def rel wks)
qed

text \<open>
  The witness attaches the second drawing of the example workbook to \<open>ex_sheet\<close>, whose
  worksheet is the second of the workbook.
\<close>

theorem SetDrawing_links_witness:
  "(\<exists>h'. SetDrawing (\<lambda>rs. ''rId2'') ex_heap ex_sheet ex_drawing = Inr h' \<and>
     relationships h' 7 =
       Some [\<lparr>rel_ID = ''rId1'', rel_DocType = DocTypeSpreadsheet, rel_Index = 2,
               rel_Type = RelTypeOther ''comments''\<rparr>,
             \<lparr>rel_ID = ''rId2'', rel_DocType = DocTypeSpreadsheet, rel_Index = 2,
               rel_Type = DrawingType\<rparr>] \<and>
     relationships h' 6 = Some [] \<and>
     worksheets h' 3 = Some \<lparr>SheetData_Row = [10, 11, 12], ws_Drawing = Some \<lparr>IdAttr = ''rId2''\<rparr>\<rparr>)"
proof -
  let ?wb = "\<lparr>xws = [4, 3], xwsRels = [Relationships (Some 6), Relationships (Some 7)],
              drawings = [8, 9]\<rparr>"
  let ?rs = "[\<lparr>rel_ID = ''rId1'', rel_DocType = DocTypeSpreadsheet, rel_Index = 2,
               rel_Type = RelTypeOther ''comments''\<rparr>]"
  have wb: "workbooks ex_heap (sheet_w ex_sheet) = Some ?wb"
    by (simp add: ex_heap_def ex_sheet_def)
  have dwb: "workbooks ex_heap (drawing_wb ex_drawing) = Some ?wb"
    by (simp add: ex_heap_def ex_drawing_def)
  have i: "Suc 0 < length (xws ?wb)" "xws ?wb ! Suc 0 = sheet_ws ex_sheet"
      "\<forall>k<Suc 0. xws ?wb ! k \<noteq> sheet_ws ex_sheet"
    by (simp_all add: ex_sheet_def)
  have rel: "Suc 0 < length (xwsRels ?wb)" "xwsRels ?wb ! Suc 0 = Relationships (Some 7)"
      "relationships ex_heap 7 = Some ?rs"
    by (simp_all add: ex_heap_def)
  have j: "Suc 0 < length (drawings ?wb)" "drawings ?wb ! Suc 0 = drawing_x ex_drawing"
      "\<forall>k<Suc 0. drawings ?wb ! k \<noteq> drawing_x ex_drawing"
    by (simp_all add: ex_drawing_def)
  have wks: "worksheets ex_heap (sheet_ws ex_sheet) =
      Some \<lparr>SheetData_Row = [10, 11, 12], ws_Drawing = None\<rparr>"
    by (simp add: ex_heap_def ex_sheet_def)
  have six: "relationships ex_heap 6 = Some []"
    by (simp add: ex_heap_def)
  have ws: "sheet_ws ex_sheet = 3"
    by (simp add: ex_sheet_def)
  from SetDrawing_links [OF wb i rel dwb j wks, of "\<lambda>rs. ''rId2''"] six
  show ?thesis
    unfolding ws by auto
qed

text \<open>
  C3, as amended. If the definition of the drawing is not among the drawings of its
  workbook, then, whether or not the worksheet of the sheet is among the worksheets of
  the workbook, \<open>SetDrawing\<close> returns, no relationship set is changed, and the drawing
  reference of the worksheet holds the empty identifier. (The relationship sets are
  taken to be aligned with the worksheets, so that \<open>s.w.xwsRels[i]\<close> exists when the
  worksheet is found at \<open>i\<close>.)
\<close>

theorem SetDrawing_unknown_drawing:
  assumes wb: "workbooks h (sheet_w s) = Some wb"
    and aligned: "length (xws wb) \<le> length (xwsRels wb)"
    and dwb: "workbooks h (drawing_wb d) = Some dwb"
    and miss: "\<not> drawing_registered h d"
    and wks: "worksheets h (sheet_ws s) = Some wks"
  shows "\<exists>h'. SetDrawing new_id h s d = Inr h' \<and>
     relationships h' = relationships h \<and>
     worksheets h' (sheet_ws s) = Some (wks\<lparr>ws_Drawing := Some \<lparr>IdAttr = ''''\<rparr>\<rparr>) \<and>
     (\<forall>p. p \<noteq> sheet_ws s \<longrightarrow> worksheets h' p = worksheets h p) \<and>
     rows h' = rows h \<and> sheets h' = sheets h \<and> workbooks h' = workbooks h"
proof -
  obtain rel where scan1: "find_rels (xws wb) (xwsRels wb) (sheet_ws s) 0 = Inr rel"
    using find_rels_aligned [of "xws wb" 0 "xwsRels wb"] aligned by auto
  have scan2: "find_drawing (drawings dwb) (drawing_x d) 0 = None"
    using miss dwb by (simp add: drawing_registered_def find_drawing_miss)
  show ?thesis
    by (simp add: SetDrawing_def wb dwb scan1 scan2 wks)
qed

text \<open>
  The claim as stated also covers the sheet whose worksheet is not found while the drawing
  is. There \<open>rel\<close> is still the zero value when the second loop calls
  \<open>rel.AddAutoRelationship\<close> on it, and \<open>SetDrawing\<close> does not complete.
\<close>

theorem SetDrawing_unknown_sheet_counterexample:
  "\<not> sheet_registered miss_heap ex_sheet \<and> drawing_registered miss_heap ex_drawing \<and>
   SetDrawing (\<lambda>rs. ''rId1'') miss_heap ex_sheet ex_drawing = Inl NilDereference"
  by (simp add: sheet_registered_def drawing_registered_def SetDrawing_def
      AddAutoRelationship_def miss_heap_def ex_heap_def ex_sheet_def ex_drawing_def)

theorem SetDrawing_unknown_drawing_witness:
  "\<not> drawing_registered ex_heap unknown_drawing \<and>
   (\<exists>h'. SetDrawing (\<lambda>rs. ''rId2'') ex_heap ex_sheet unknown_drawing = Inr h' \<and>
      relationships h' = relationships ex_heap \<and>
      worksheets h' 3 = Some \<lparr>SheetData_Row = [10, 11, 12], ws_Drawing = Some \<lparr>IdAttr = ''''\<rparr>\<rparr>)"
proof -
  let ?wb = "\<lparr>xws = [4, 3], xwsRels = [Relationships (Some 6), Relationships (Some 7)],
              drawings = [8, 9]\<rparr>"
  have wb: "workbooks ex_heap (sheet_w ex_sheet) = Some ?wb"
    by (simp add: ex_heap_def ex_sheet_def)
  have dwb: "workbooks ex_heap (drawing_wb unknown_drawing) = Some ?wb"
    by (simp add: ex_heap_def unknown_drawing_def)
  have aligned: "length (xws ?wb) \<le> length (xwsRels ?wb)"
    by simp
  have miss: "\<not> drawing_registered ex_heap unknown_drawing"
    by (simp add: drawing_registered_def ex_heap_def unknown_drawing_def)
  have wks: "worksheets ex_heap (sheet_ws ex_sheet) =
      Some \<lparr>SheetData_Row = [10, 11, 12], ws_Drawing = None\<rparr>"
    by (simp add: ex_heap_def ex_sheet_def)
  have ws: "sheet_ws ex_sheet = 3"
    by (simp add: ex_sheet_def)
  from SetDrawing_unknown_drawing [OF wb aligned dwb miss wks, of "\<lambda>rs. ''rId2''"] miss
  show ?thesis
    unfolding ws by auto
qed


end
